theory Spec2Isabelle
  imports Main "HOL-Library.Multiset"
begin

section \<open>Stats Deriver: frontend/src/App.jsx, DashboardScreen\<close>

subsection \<open>Dates\<close>

text \<open>
  A JavaScript \<open>Date\<close> is its time value: the milliseconds since the epoch in UTC, an
  integer. The entry dates are valid dates and all time values are in the range of
  \<open>Date\<close>. The current time \<open>new Date()\<close> is the parameter \<open>now\<close>.

  The browser's time zone is a parameter. The language reads it through one
  operation, the offset of local time from UTC in milliseconds, asked in two ways:
  \<open>utcOffset z t\<close> is the offset in force at the time value \<open>t\<close>, and \<open>localOffset z t\<close> is
  the offset by which the local time \<open>t\<close> is read. Where a clock change skips or repeats
  a local time, the language reads that local time with the offset before the change.
\<close>

definition msPerDay :: int where
  "msPerDay = 86400000"

record zone =
  utcOffset :: "int \<Rightarrow> int"
  localOffset :: "int \<Rightarrow> int"

definition LocalTime :: "zone \<Rightarrow> int \<Rightarrow> int" where
  "LocalTime z t = t + utcOffset z t"

definition UTC :: "zone \<Rightarrow> int \<Rightarrow> int" where
  "UTC z t = t - localOffset z t"

definition Day :: "int \<Rightarrow> int" where
  "Day t = t div msPerDay"

definition TimeWithinDay :: "int \<Rightarrow> int" where
  "TimeWithinDay t = t mod msPerDay"

definition MakeDate :: "int \<Rightarrow> int \<Rightarrow> int" where
  "MakeDate day time = day * msPerDay + time"

text \<open>
  \<open>d.setHours(0, 0, 0, 0); d.getTime()\<close>: the local time of \<open>d\<close> with the time within the
  day set to 0, read back as a time value.
\<close>

definition setHours0 :: "zone \<Rightarrow> int \<Rightarrow> int" where
  "setHours0 z t = UTC z (MakeDate (Day (LocalTime z t)) 0)"

text \<open>
  \<open>p = new Date(d); p.setDate(d.getDate() - 1); p.getTime()\<close>: the local time of \<open>d\<close> with
  the day before and the same time within the day, read back as a time value.
\<close>

definition setDatePrev :: "zone \<Rightarrow> int \<Rightarrow> int" where
  "setDatePrev z t =
     UTC z (MakeDate (Day (LocalTime z t) - 1) (TimeWithinDay (LocalTime z t)))"

subsection \<open>Time zones\<close>

text \<open>
  A zone that never changes its clocks; Africa/Cairo in 2025, at UTC+2 with daylight
  saving time at UTC+3 from 25 April, when the clocks go from 00:00 to 01:00, to 30
  October, when they go from 24:00 back to 23:00; America/New_York in 2025, at UTC-5
  with daylight saving time at UTC-4 from 9 March to 2 November, both changes at 02:00.
  The numbers are the time values of the changes.
\<close>

definition fixedOffset :: "int \<Rightarrow> int \<Rightarrow> int" where
  "fixedOffset off t = off"

definition fixedZone :: "int \<Rightarrow> zone" where
  "fixedZone off = \<lparr>utcOffset = fixedOffset off, localOffset = fixedOffset off\<rparr>"

definition cairoUtcOffset :: "int \<Rightarrow> int" where
  "cairoUtcOffset t =
     (if t < 1745532000000 then 7200000
      else if t < 1761858000000 then 10800000
      else 7200000)"

definition cairoLocalOffset :: "int \<Rightarrow> int" where
  "cairoLocalOffset t =
     (if t < 1745532000000 + 10800000 then 7200000
      else if t < 1761858000000 + 10800000 then 10800000
      else 7200000)"

definition cairo2025 :: zone where
  "cairo2025 = \<lparr>utcOffset = cairoUtcOffset, localOffset = cairoLocalOffset\<rparr>"

definition newYorkUtcOffset :: "int \<Rightarrow> int" where
  "newYorkUtcOffset t =
     (if t < 1741503600000 then - 18000000
      else if t < 1762063200000 then - 14400000
      else - 18000000)"

definition newYorkLocalOffset :: "int \<Rightarrow> int" where
  "newYorkLocalOffset t =
     (if t < 1741503600000 - 14400000 then - 18000000
      else if t < 1762063200000 - 14400000 then - 14400000
      else - 18000000)"

definition newYork2025 :: zone where
  "newYork2025 = \<lparr>utcOffset = newYorkUtcOffset, localOffset = newYorkLocalOffset\<rparr>"

subsection \<open>Entries and the JavaScript Set\<close>

text \<open>
  An element of \<open>moodHistory\<close>, as the server's JSON gives it; \<open>date\<close> is the time value
  of \<open>new Date(entry.date)\<close>.
\<close>

record entry =
  mood :: string
  journal :: string
  date :: int

text \<open>
  A JavaScript \<open>Set\<close> keeps its elements in insertion order, each once:
  \<open>new Set(iterable)\<close> adds the elements one by one and \<open>add\<close> ignores an element
  that is already there.
\<close>

type_synonym 'a js_set = "'a list"

definition Set_add :: "'a js_set \<Rightarrow> 'a \<Rightarrow> 'a js_set" where
  "Set_add s x = (if x \<in> set s then s else s @ [x])"

definition Set_new :: "'a list \<Rightarrow> 'a js_set" where
  "Set_new xs = foldl Set_add [] xs"

definition Set_has :: "'a js_set \<Rightarrow> 'a \<Rightarrow> bool" where
  "Set_has s x = (x \<in> set s)"

subsection \<open>totalPoints and currentStreak\<close>

definition totalPoints :: "entry list \<Rightarrow> nat" where
  "totalPoints moodHistory = length moodHistory * 10"

text \<open>
  The \<open>while (true)\<close> loop of \<open>currentStreak\<close>: it steps back one day at a time while the
  previous day is in the set, and leaves at the first day that is not. Nothing in the
  loop bounds it, so the result is an option: \<open>None\<close> is a loop that does not end.
\<close>

partial_function (option) walkBack :: "zone \<Rightarrow> int js_set \<Rightarrow> int \<Rightarrow> nat \<Rightarrow> nat option" where
  "walkBack z entryDates currentDate streak =
     (let previousDay = setDatePrev z currentDate in
      if Set_has entryDates previousDay
      then walkBack z entryDates previousDay (streak + 1)
      else Some streak)"

declare walkBack.simps [code]

text \<open>
  \<open>currentStreak\<close>, with the time zone and the current time as parameters.
  \<open>Array.prototype.sort\<close> is stable; the comparator \<open>new Date(b.date) - new Date(a.date)\<close>
  orders by descending date.
\<close>

definition currentStreak :: "zone \<Rightarrow> int \<Rightarrow> entry list \<Rightarrow> nat option" where
  "currentStreak z now moodHistory =
     (if length moodHistory = 0 then Some 0
      else
        let sortedEntries = sort_key (\<lambda>e. - date e) moodHistory;
            today = setHours0 z now;
            entryDates = Set_new (map (\<lambda>entry. setHours0 z (date entry)) sortedEntries)
        in
          if Set_has entryDates today then walkBack z entryDates today 1
          else
            let yesterday = setDatePrev z today in
            if \<not> Set_has entryDates yesterday then Some 0
            else walkBack z entryDates yesterday 1)"

subsection \<open>The specification's streak algorithm\<close>

text \<open>
  The specification's words, on calendar day numbers: the day of a time value is the
  number of the local day it falls on, counted from the epoch. The days of the entries
  are collected into a set of distinct days; the streak is seeded at today, else at
  yesterday, else it is 0; the cursor then moves back a day at a time while the day
  before it is in the set.
\<close>

definition dayOf :: "zone \<Rightarrow> int \<Rightarrow> int" where
  "dayOf z t = Day (LocalTime z t)"

definition spec_days :: "zone \<Rightarrow> entry list \<Rightarrow> int list" where
  "spec_days z entries = remdups (map (\<lambda>e. dayOf z (date e)) entries)"

lemma length_filter_less_pred:
  "x \<in> set xs \<Longrightarrow> \<not> P x \<Longrightarrow> Q x \<Longrightarrow> (\<And>y. P y \<Longrightarrow> Q y) \<Longrightarrow>
   length (filter P xs) < length (filter Q xs)"
proof (induction xs)
  case Nil
  then show ?case by simp
next
  case (Cons a xs)
  have le: "length (filter P xs) \<le> length (filter Q xs)"
  proof -
    have "filter P xs = filter P (filter Q xs)"
      using Cons.prems(4) by (auto intro: filter_cong simp: filter_filter)
    then show ?thesis
      by (metis length_filter_le)
  qed
  show ?case
  proof (cases "x = a")
    case True
    with Cons.prems le show ?thesis by simp
  next
    case False
    with Cons.prems have "x \<in> set xs" by simp
    from Cons.IH [OF this Cons.prems(2) Cons.prems(3) Cons.prems(4)] Cons.prems(4)
    show ?thesis by auto
  qed
qed

function spec_walk :: "int list \<Rightarrow> int \<Rightarrow> nat \<Rightarrow> nat" where
  "spec_walk days cursor streak =
     (if cursor - 1 \<in> set days then spec_walk days (cursor - 1) (streak + 1) else streak)"
  by pat_completeness auto

termination spec_walk
proof (relation "measure (\<lambda>(days, cursor, streak). length (filter (\<lambda>x. x < cursor) days))")
  show "wf (measure (\<lambda>(days, cursor, streak). length (filter (\<lambda>x. x < cursor) days)))"
    by simp
next
  fix days :: "int list" and cursor :: int and streak :: nat
  assume h: "cursor - 1 \<in> set days"
  have "length (filter (\<lambda>x. x < cursor - 1) days) < length (filter (\<lambda>x. x < cursor) days)"
    by (rule length_filter_less_pred [OF h]) simp_all
  then show "((days, cursor - 1, streak + 1), (days, cursor, streak))
             \<in> measure (\<lambda>(days, cursor, streak). length (filter (\<lambda>x. x < cursor) days))"
    by simp
qed

declare spec_walk.simps [simp del]

definition spec_streak :: "zone \<Rightarrow> int \<Rightarrow> entry list \<Rightarrow> nat" where
  "spec_streak z now entries =
     (let days = spec_days z entries; today = dayOf z now in
      if today \<in> set days then spec_walk days today 1
      else if today - 1 \<in> set days then spec_walk days (today - 1) 1
      else 0)"

text \<open>
  A run of \<open>n\<close> consecutive calendar days ending at \<open>lastDay\<close>, each with an entry:
  the days \<open>lastDay - (n - 1)\<close>, ..., \<open>lastDay\<close> are all in the set \<open>D\<close> of entry days.
  A run is maximal when no longer run ends at the same day.
\<close>

definition isRun :: "int set \<Rightarrow> int \<Rightarrow> nat \<Rightarrow> bool" where
  "isRun D lastDay n = (\<forall>k<n. lastDay - int k \<in> D)"

definition isMaximalRun :: "int set \<Rightarrow> int \<Rightarrow> nat \<Rightarrow> bool" where
  "isMaximalRun D lastDay n = (isRun D lastDay n \<and> (\<forall>m. isRun D lastDay m \<longrightarrow> m \<le> n))"

definition entryDays :: "zone \<Rightarrow> entry list \<Rightarrow> int set" where
  "entryDays z entries = dayOf z ` date ` set entries"

text \<open>
  The time value \<open>setHours0\<close> gives on the local day \<open>d\<close>, and the zones in which it is
  the local midnight of that day, for every day: no clock change skips a midnight.
\<close>

definition midnight :: "zone \<Rightarrow> int \<Rightarrow> int" where
  "midnight z d = UTC z (MakeDate d 0)"

definition regularZone :: "zone \<Rightarrow> bool" where
  "regularZone z = (\<forall>d. LocalTime z (midnight z d) = MakeDate d 0)"

text \<open>
  The entry list with the duplicates removed: of the entries whose dates fall on the
  same calendar day, only the first is kept.
\<close>

fun dedupByDay :: "zone \<Rightarrow> entry list \<Rightarrow> entry list" where
  "dedupByDay z [] = []"
| "dedupByDay z (e # es) =
     e # dedupByDay z (filter (\<lambda>x. dayOf z (date x) \<noteq> dayOf z (date e)) es)"

text \<open>A sample entry at a given time, for the concrete instances below.\<close>

definition entryAt :: "int \<Rightarrow> entry" where
  "entryAt t = \<lparr>mood = ''happy'', journal = [], date = t\<rparr>"

section \<open>Auth Service: backend/middleware/authMiddleware.js\<close>

subsection \<open>Strings and JavaScript truthiness\<close>

definition startsWith :: "string \<Rightarrow> string \<Rightarrow> bool" where
  \<comment> \<open>\<open>s.startsWith(p)\<close>\<close>
  "startsWith s p = (take (length p) s = p)"

text \<open>
  \<open>s.split(sep)\<close> for a separator of one character: the pieces between the separators,
  empty pieces included; a string without the separator is its only piece.
\<close>

fun split_str :: "char \<Rightarrow> string \<Rightarrow> string list" where
  "split_str sep [] = [[]]"
| "split_str sep (c # cs) =
     (if c = sep then [] # split_str sep cs
      else (case split_str sep cs of [] \<Rightarrow> [[c]] | w # ws \<Rightarrow> (c # w) # ws))"

definition nth_opt :: "'a list \<Rightarrow> nat \<Rightarrow> 'a option" where
  \<comment> \<open>\<open>xs[i]\<close>: \<open>undefined\<close> (here \<open>None\<close>) beyond the end of the array.\<close>
  "nth_opt xs i = (if i < length xs then Some (xs ! i) else None)"

definition truthy :: "string option \<Rightarrow> bool" where
  \<comment> \<open>A string or \<open>undefined\<close> as a condition: \<open>undefined\<close> and the empty string are falsy.\<close>
  "truthy v = (case v of None \<Rightarrow> False | Some s \<Rightarrow> s \<noteq> [])"

subsection \<open>Requests, responses and the two collaborators\<close>

datatype js_error = Error (message: string)

text \<open>
  A user document as \<open>User.findById(id).select('-password')\<close> gives it (the password
  field excluded), and the payload \<open>jwt.verify\<close> decodes, of which the code reads \<open>id\<close>.
\<close>

record user_doc =
  user_id :: string
  username :: string

record decoded =
  decoded_id :: "string option"

record request =
  authorization :: "string option"
  req_user :: "user_doc option"

text \<open>
  What the middleware does to the outside, in order: a call of \<open>next()\<close>, a response
  \<open>res.status(code).json(body)\<close> (the body an object of string fields), a line on the
  console.
\<close>

datatype effect =
    Next
  | Respond nat "(string \<times> string) list"
  | ConsoleError "string list"

text \<open>
  \<open>jwt.verify(token, process.env.JWT_SECRET)\<close> and the user lookup are parameters:
  \<open>jwt_verify\<close> takes the token (possibly \<open>undefined\<close>) and throws (\<open>Inl\<close>) or returns the
  decoded payload; \<open>findById\<close> takes \<open>decoded.id\<close> and rejects (\<open>Inl\<close>) or resolves to
  \<open>null\<close> or to a user document.
\<close>

type_synonym jwt_verify = "string option \<Rightarrow> js_error + decoded"
type_synonym find_by_id = "string option \<Rightarrow> js_error + user_doc option"

subsection \<open>protect\<close>

text \<open>
  The body of the \<open>try\<close> block after the token is read: the request as the block leaves
  it, what it did, and the error it threw, if any. Express runs the following handler
  inside \<open>next()\<close> and catches what that handler throws itself, so \<open>next()\<close> returns.
\<close>

definition protect_try ::
  "jwt_verify \<Rightarrow> find_by_id \<Rightarrow> string option \<Rightarrow> request \<Rightarrow> request \<times> effect list \<times> js_error option"
where
  "protect_try jwt_verify findById token req =
     (case jwt_verify token of
        Inl error \<Rightarrow> (req, [], Some error)
      | Inr decoded \<Rightarrow>
          (case findById (decoded_id decoded) of
             Inl error \<Rightarrow> (req, [], Some error)
           | Inr u \<Rightarrow>
               let req' = req\<lparr>req_user := u\<rparr> in
               if req_user req' = None then (req', [], Some (Error ''User not found''))
               else (req', [Next], None)))"

definition protect :: "jwt_verify \<Rightarrow> find_by_id \<Rightarrow> request \<Rightarrow> request \<times> effect list" where
  "protect jwt_verify findById req =
     (let (token, req1, effects) =
            (case authorization req of
               None \<Rightarrow> (None, req, [])
             | Some header \<Rightarrow>
                 if header \<noteq> [] \<and> startsWith header ''Bearer'' then
                   let token = nth_opt (split_str CHR '' '' header) 1;
                       (req', done, thrown) = protect_try jwt_verify findById token req
                   in (case thrown of
                         None \<Rightarrow> (token, req', done)
                       | Some error \<Rightarrow>
                           (token, req',
                            done @ [ConsoleError [''Token failed:'', message error],
                                    Respond 401 [(''message'', ''Not authorized, token failed'')]]))
                 else (None, req, []))
      in if \<not> truthy token
         then (req1, effects @ [Respond 401 [(''message'', ''Not authorized, no token'')]])
         else (req1, effects))"

subsection \<open>Reading the outcome of a request\<close>

fun isOutcome :: "effect \<Rightarrow> bool" where
  "isOutcome Next = True"
| "isOutcome (Respond code body) = True"
| "isOutcome (ConsoleError line) = False"

definition outcomes :: "effect list \<Rightarrow> effect list" where
  "outcomes effects = filter isOutcome effects"

fun responseOf :: "effect \<Rightarrow> (nat \<times> (string \<times> string) list) option" where
  "responseOf (Respond code body) = Some (code, body)"
| "responseOf Next = None"
| "responseOf (ConsoleError line) = None"

definition responses :: "effect list \<Rightarrow> (nat \<times> (string \<times> string) list) list" where
  "responses effects = List.map_filter responseOf effects"

text \<open>
  A request fails with a 401: the handler is not invoked (no \<open>next()\<close>), a response is
  sent, and every response sent has status 401 and a \<open>message\<close> field.
\<close>

definition failsWith401 :: "effect list \<Rightarrow> bool" where
  "failsWith401 effects =
     (Next \<notin> set effects \<and> responses effects \<noteq> [] \<and>
      list_all (\<lambda>(code, body). code = 401 \<and> map_of body ''message'' \<noteq> None) (responses effects))"

text \<open>
  The token the request presents, as \<open>protect\<close> reads it from the header, and the
  specification's cases of \<open>verify\<close>: the token is missing; the verifier rejects it
  (malformed, expired, unrecognised key); the lookup of the user it names throws; the
  user it names does not exist; it verifies and names an existing user.
\<close>

definition presentedToken :: "request \<Rightarrow> string option" where
  "presentedToken req =
     (case authorization req of
        None \<Rightarrow> None
      | Some header \<Rightarrow>
          if header \<noteq> [] \<and> startsWith header ''Bearer''
          then nth_opt (split_str CHR '' '' header) 1 else None)"

datatype verification =
    TokenMissing
  | TokenRejected js_error
  | LookupThrew js_error
  | UserGone
  | Verified user_doc

definition verification :: "jwt_verify \<Rightarrow> find_by_id \<Rightarrow> request \<Rightarrow> verification" where
  "verification jwt_verify findById req =
     (let token = presentedToken req in
      if \<not> truthy token then TokenMissing
      else
        (case jwt_verify token of
           Inl error \<Rightarrow> TokenRejected error
         | Inr decoded \<Rightarrow>
             (case findById (decoded_id decoded) of
                Inl error \<Rightarrow> LookupThrew error
              | Inr None \<Rightarrow> UserGone
              | Inr (Some u) \<Rightarrow> Verified u)))"

fun isAuthError :: "verification \<Rightarrow> bool" where
  \<comment> \<open>The failures the specification lists for \<open>verify\<close>.\<close>
  "isAuthError TokenMissing = True"
| "isAuthError (TokenRejected e) = True"
| "isAuthError UserGone = True"
| "isAuthError (LookupThrew e) = False"
| "isAuthError (Verified u) = False"

fun isVerified :: "verification \<Rightarrow> bool" where
  "isVerified (Verified u) = True"
| "isVerified v = False"

subsection \<open>The route /api/moods\<close>

text \<open>
  Modelled from the spec: routes/moodRoutes.js and the controllers are not among the
  sources. The specification lists GET and POST /api/moods as endpoints behind the
  Bearer token, so the route is \<open>protect\<close> followed by the handler, which Express
  invokes when \<open>protect\<close> calls \<open>next()\<close>. The handler is a parameter: given the request
  and the Entry Store it gives its effects and the store it leaves.
\<close>

definition moodsRoute ::
  "jwt_verify \<Rightarrow> find_by_id \<Rightarrow> (request \<Rightarrow> 'store \<Rightarrow> effect list \<times> 'store) \<Rightarrow>
   request \<Rightarrow> 'store \<Rightarrow> effect list \<times> 'store"
where
  "moodsRoute jwt_verify findById handler req store =
     (let (req', effects) = protect jwt_verify findById req in
      if Next \<in> set effects
      then (let (more, store') = handler req' store in (effects @ more, store'))
      else (effects, store))"

text \<open>The one case of a failed request that the specification's list leaves out.\<close>

fun isLookupThrew :: "verification \<Rightarrow> bool" where
  "isLookupThrew (LookupThrew e) = True"
| "isLookupThrew v = False"

section \<open>Client Session Manager: frontend/src/App.jsx, useAuth\<close>

text \<open>
  The value of the \<open>auth\<close> state: the object the server answers to a login or a
  registration, \<open>{token, username}\<close>; \<open>null\<close> is \<open>None\<close>. The fields \<open>token\<close> and
  \<open>username\<close> carry the prefix \<open>auth_\<close> here, the plain names being taken above.
\<close>

record auth_data =
  auth_token :: string
  auth_username :: string

text \<open>
  The hook's state: the React state \<open>auth\<close> and the browser's \<open>localStorage\<close>, a map
  from keys to strings.
\<close>

record client =
  auth :: "auth_data option"
  localStorage :: "string \<rightharpoonup> string"

record response =
  status :: nat
  ok :: bool

record fetch_options =
  http_method :: string
  headers :: "string \<rightharpoonup> string"
  req_body :: "string option"

definition setAuth :: "auth_data option \<Rightarrow> client \<Rightarrow> client" where
  "setAuth v st = st\<lparr>auth := v\<rparr>"

text \<open>
  The effect \<open>useEffect(..., [auth])\<close>, which React runs after a render in which \<open>auth\<close>
  has changed; \<open>stringify\<close> is \<open>JSON.stringify\<close>.
\<close>

definition authEffect :: "(auth_data \<Rightarrow> string) \<Rightarrow> client \<Rightarrow> client" where
  "authEffect stringify st =
     (case auth st of
        Some a \<Rightarrow> st\<lparr>localStorage := (localStorage st)(''auth'' \<mapsto> stringify a)\<rparr>
      | None \<Rightarrow> st\<lparr>localStorage := (localStorage st)(''auth'' := None)\<rparr>)"

text \<open>
  \<open>authFetch(url, options)\<close>: \<open>fetch\<close> is a parameter that rejects (\<open>Inl\<close>) or resolves to
  a response. The result is the state after the call and what the call throws
  (\<open>Inl\<close>) or returns. In the headers the spread \<open>...options.headers\<close> comes last and
  overrides the two defaults.
\<close>

definition authFetch ::
  "(string \<Rightarrow> fetch_options \<Rightarrow> js_error + response) \<Rightarrow> string \<Rightarrow> fetch_options \<Rightarrow> client
   \<Rightarrow> client \<times> (js_error + response)"
where
  "authFetch fetch url options st =
     (case auth st of
        None \<Rightarrow> (st, Inl (Error ''No authentication token found.''))
      | Some a \<Rightarrow>
          if auth_token a = [] then (st, Inl (Error ''No authentication token found.''))
          else
            let hdrs = [''Content-Type'' \<mapsto> ''application/json'',
                        ''Authorization'' \<mapsto> ''Bearer '' @ auth_token a] ++ headers options
            in (case fetch url (options\<lparr>headers := hdrs\<rparr>) of
                  Inl error \<Rightarrow> (st, Inl error)
                | Inr response \<Rightarrow>
                    if status response = 401
                    then (setAuth None st, Inl (Error ''Unauthorized. Please log in again.''))
                    else (st, Inr response)))"

text \<open>A call of \<open>authFetch\<close> followed by the render it causes, with the effect.\<close>

definition authFetchRendered ::
  "(auth_data \<Rightarrow> string) \<Rightarrow> (string \<Rightarrow> fetch_options \<Rightarrow> js_error + response) \<Rightarrow>
   string \<Rightarrow> fetch_options \<Rightarrow> client \<Rightarrow> client \<times> (js_error + response)"
where
  "authFetchRendered stringify fetch url options st =
     (let (st', result) = authFetch fetch url options st
      in (if auth st' \<noteq> auth st then authEffect stringify st' else st', result))"

text \<open>The request \<open>authFetch\<close> hands to \<open>fetch\<close> for a session with the token of \<open>a\<close>.\<close>

definition authRequest :: "auth_data \<Rightarrow> fetch_options \<Rightarrow> fetch_options" where
  "authRequest a options =
     options\<lparr>headers := [''Content-Type'' \<mapsto> ''application/json'',
                          ''Authorization'' \<mapsto> ''Bearer '' @ auth_token a] ++ headers options\<rparr>"

section \<open>Mood Entry Service: backend/models/moodModel.js\<close>

definition moodEnum :: "string list" where
  "moodEnum = [''happy'', ''good'', ''neutral'', ''sad'', ''upset'']"

text \<open>
  The object a document is built from, path by path.
  \<^item> \<open>user\<close> is absent (\<open>undefined\<close> or \<open>null\<close>), an ObjectId, or a value that does not cast
    to an ObjectId.
  \<^item> \<open>mood\<close> is absent (\<open>undefined\<close> or \<open>null\<close>) or a string; a number or a boolean is the
    string it casts to.
  \<^item> \<open>journal\<close> is absent (\<open>undefined\<close>), \<open>null\<close>, or a string.
  \<^item> \<open>date\<close> is absent (\<open>undefined\<close>), \<open>null\<close>, a valid time value, or a value that does
    not cast to a \<open>Date\<close>.
\<close>

datatype object_id = ObjectId string

datatype user_input = NoUser | UserId object_id | UserInvalid

datatype journal_input = NoJournal | JournalNull | JournalText string

datatype date_input = NoDate | DateNull | DateValue int | DateInvalid

record mood_input =
  in_user :: user_input
  in_mood :: "string option"
  in_journal :: journal_input
  in_date :: date_input

text \<open>The document: \<open>journal\<close> may be \<open>null\<close>, which is \<open>None\<close>.\<close>

record mood_doc =
  doc_user :: object_id
  doc_mood :: string
  doc_journal :: "string option"
  doc_date :: int

datatype validator_error = ValidatorError (path: string) (kind: string)

text \<open>
  The validators of the schema's paths, as Mongoose runs them: a value that does not
  cast to the type of its path fails with the kind of that type; \<open>required\<close> fails on an
  absent value, on \<open>null\<close> and, for a string, on the empty string; \<open>enum\<close> fails on a
  string that is not in the list.
\<close>

definition validateUserField :: "user_input \<Rightarrow> validator_error list" where
  "validateUserField v =
     (case v of
        NoUser \<Rightarrow> [ValidatorError ''user'' ''required'']
      | UserInvalid \<Rightarrow> [ValidatorError ''user'' ''ObjectId'']
      | UserId u \<Rightarrow> [])"

definition validateMoodField :: "string option \<Rightarrow> validator_error list" where
  "validateMoodField v =
     (case v of
        None \<Rightarrow> [ValidatorError ''mood'' ''required'']
      | Some m \<Rightarrow>
          if m = [] then [ValidatorError ''mood'' ''required'']
          else if m \<in> set moodEnum then []
          else [ValidatorError ''mood'' ''enum''])"

definition validateDateField :: "date_input \<Rightarrow> validator_error list" where
  "validateDateField v =
     (case v of
        DateNull \<Rightarrow> [ValidatorError ''date'' ''required'']
      | DateInvalid \<Rightarrow> [ValidatorError ''date'' ''date'']
      | NoDate \<Rightarrow> []
      | DateValue t \<Rightarrow> [])"

text \<open>
  Building and validating a document (\<open>MoodEntry.create\<close> before it saves): the defaults
  are filled in for the absent paths (\<open>journal\<close> the empty string, \<open>date\<close> the current time
  \<open>now\<close>), a journal that is a string is trimmed, and the document is returned when no
  validator fails. \<open>String.prototype.trim\<close> is the parameter \<open>trim\<close>.
\<close>

definition buildEntry ::
  "(string \<Rightarrow> string) \<Rightarrow> int \<Rightarrow> mood_input \<Rightarrow> validator_error list + mood_doc"
where
  "buildEntry trim now inp =
     (let errors = validateUserField (in_user inp) @ validateMoodField (in_mood inp)
                   @ validateDateField (in_date inp)
      in case (in_user inp, in_mood inp) of
           (UserId u, Some m) \<Rightarrow>
             if errors = [] then
               Inr \<lparr>doc_user = u, doc_mood = m,
                    doc_journal =
                      (case in_journal inp of
                         NoJournal \<Rightarrow> Some []
                       | JournalNull \<Rightarrow> None
                       | JournalText j \<Rightarrow> Some (trim j)),
                    doc_date = (case in_date inp of DateValue t \<Rightarrow> t | _ \<Rightarrow> now)\<rparr>
             else Inl errors
         | _ \<Rightarrow> Inl errors)"

text \<open>
  Modelled from the spec: controllers/moodController.js is not among the sources. The
  specification's \<open>createEntry(userId, mood, journal?, date?)\<close> behind POST /api/moods:
  the entry is validated against the schema; a validation error is answered with
  status 400 and nothing is persisted; otherwise the entry is persisted with the owner
  \<open>userId\<close>, the id of the verified user, and answered with status 201.
\<close>

definition createEntry ::
  "(string \<Rightarrow> string) \<Rightarrow> int \<Rightarrow> object_id \<Rightarrow> string option \<Rightarrow> journal_input \<Rightarrow> date_input
   \<Rightarrow> mood_doc list \<Rightarrow> (nat \<times> (validator_error list + mood_doc)) \<times> mood_doc list"
where
  "createEntry trim now userId moodValue journalText dateValue store =
     (case buildEntry trim now \<lparr>in_user = UserId userId, in_mood = moodValue,
                                 in_journal = journalText, in_date = dateValue\<rparr> of
        Inl errors \<Rightarrow> ((400, Inl errors), store)
      | Inr doc \<Rightarrow> ((201, Inr doc), store @ [doc]))"

section \<open>Sample collaborators and inputs\<close>

text \<open>
  Concrete collaborators for the instances below: a verifier that accepts one token and
  rejects every other as \<open>jwt.verify\<close> would, a lookup that knows one user, a lookup
  that fails, a handler that writes to the store, a server that answers by the token.
\<close>

definition sampleVerify :: jwt_verify where
  "sampleVerify token =
     (if token = Some ''good.token'' then Inr \<lparr>decoded_id = Some ''u1''\<rparr>
      else if truthy token then Inl (Error ''jwt malformed'')
      else Inl (Error ''jwt must be provided''))"

definition sampleLookup :: find_by_id where
  "sampleLookup i =
     (if i = Some ''u1'' then Inr (Some \<lparr>user_id = ''u1'', username = ''ann''\<rparr>) else Inr None)"

definition failingLookup :: find_by_id where
  "failingLookup i = Inl (Error ''connection closed'')"

definition writingHandler :: "request \<Rightarrow> string list \<Rightarrow> effect list \<times> string list" where
  "writingHandler req store = ([Respond 201 [(''mood'', ''happy'')]], ''happy'' # store)"

definition sampleFetch :: "string \<Rightarrow> fetch_options \<Rightarrow> js_error + response" where
  "sampleFetch url options =
     (if headers options ''Authorization'' = Some ''Bearer good.token''
      then Inr \<lparr>status = 200, ok = True\<rparr>
      else if headers options ''Authorization'' = Some ''Bearer no.rights''
      then Inr \<lparr>status = 403, ok = False\<rparr>
      else Inr \<lparr>status = 401, ok = False\<rparr>)"

definition sampleStringify :: "auth_data \<Rightarrow> string" where
  "sampleStringify a = auth_token a @ '' '' @ auth_username a"

definition sampleClient :: "string \<Rightarrow> client" where
  "sampleClient t =
     \<lparr>auth = Some \<lparr>auth_token = t, auth_username = ''ann''\<rparr>,
      localStorage = [''auth'' \<mapsto> t @ '' ann'']\<rparr>"

definition getOptions :: fetch_options where
  "getOptions = \<lparr>http_method = ''GET'', headers = Map.empty, req_body = None\<rparr>"

text \<open>
  A trim for the instances below: it removes the ASCII white space at both ends, as
  \<open>String.prototype.trim\<close> does on a string whose white space is ASCII.
\<close>

definition isAsciiSpace :: "char \<Rightarrow> bool" where
  "isAsciiSpace c = (c \<in> set [CHR '' '', CHR 0x09, CHR 0x0A, CHR 0x0B, CHR 0x0C, CHR 0x0D])"

definition asciiTrim :: "string \<Rightarrow> string" where
  "asciiTrim s = rev (dropWhile isAsciiSpace (rev (dropWhile isAsciiSpace s)))"

definition sampleUserId :: object_id where
  "sampleUserId = ObjectId ''64b7f0c2a1d3e4f5a6b7c8d9''"

section \<open>Properties of the Stats Deriver\<close>

lemma set_foldl_Set_add: "set (foldl Set_add acc xs) = set acc \<union> set xs"
  by (induction xs arbitrary: acc) (auto simp: Set_add_def)

lemma set_Set_new: "set (Set_new xs) = set xs"
  by (simp add: Set_new_def set_foldl_Set_add)

lemma walkBack_set_Some:
  assumes "walkBack z S c k = Some r" and "set S = set S'"
  shows "walkBack z S' c k = Some r"
proof -
  have "\<forall>T. set S = set T \<longrightarrow> walkBack z T c k = Some r"
  proof (rule walkBack.raw_induct
      [where P = "\<lambda>z S c k r. \<forall>T. set S = set T \<longrightarrow> walkBack z T c k = Some r", OF _ assms(1)])
    fix wb :: "zone \<Rightarrow> int js_set \<Rightarrow> int \<Rightarrow> nat \<Rightarrow> nat option"
      and z entryDates currentDate streak r
    assume IH: "\<And>z S c k r. wb z S c k = Some r
                 \<Longrightarrow> \<forall>T. set S = set T \<longrightarrow> walkBack z T c k = Some r"
      and body: "(let previousDay = setDatePrev z currentDate in
                  if Set_has entryDates previousDay
                  then wb z entryDates previousDay (streak + 1)
                  else Some streak) = Some r"
    show "\<forall>T. set entryDates = set T \<longrightarrow> walkBack z T currentDate streak = Some r"
    proof (intro allI impI)
      fix T assume e: "set entryDates = set T"
      show "walkBack z T currentDate streak = Some r"
      proof (cases "Set_has entryDates (setDatePrev z currentDate)")
        case True
        then have h': "Set_has T (setDatePrev z currentDate)"
          using e by (simp add: Set_has_def)
        from True body
        have "wb z entryDates (setDatePrev z currentDate) (streak + 1) = Some r"
          by (simp add: Let_def)
        from IH [OF this] e
        have "walkBack z T (setDatePrev z currentDate) (streak + 1) = Some r" by blast
        with h' show ?thesis
          by (subst walkBack.simps) (simp add: Let_def)
      next
        case False
        then have h': "\<not> Set_has T (setDatePrev z currentDate)"
          using e by (simp add: Set_has_def)
        from False body have "r = streak" by (simp add: Let_def)
        with h' show ?thesis
          by (subst walkBack.simps) (simp add: Let_def)
      qed
    qed
  qed
  with assms(2) show ?thesis by blast
qed

lemma walkBack_set_cong:
  "set S = set S' \<Longrightarrow> walkBack z S c k = walkBack z S' c k"
proof -
  assume e: "set S = set S'"
  show ?thesis
  proof (cases "walkBack z S c k")
    case (Some r)
    from walkBack_set_Some [OF Some e] Some show ?thesis by simp
  next
    case None
    show ?thesis
    proof (cases "walkBack z S' c k")
      case (Some r)
      from walkBack_set_Some [OF Some e [symmetric]] None show ?thesis by simp
    next
      case n: None
      with None show ?thesis by simp
    qed
  qed
qed

lemma currentStreak_set_cong:
  assumes "(\<lambda>entry. setHours0 z (date entry)) ` set es1 = (\<lambda>entry. setHours0 z (date entry)) ` set es2"
  shows "currentStreak z now es1 = currentStreak z now es2"
proof -
  define S1 where "S1 = Set_new (map (\<lambda>entry. setHours0 z (date entry)) (sort_key (\<lambda>e. - date e) es1))"
  define S2 where "S2 = Set_new (map (\<lambda>entry. setHours0 z (date entry)) (sort_key (\<lambda>e. - date e) es2))"
  have s: "set S1 = set S2"
    using assms by (simp add: S1_def S2_def set_Set_new)
  have e: "es1 = [] \<longleftrightarrow> es2 = []"
    using assms by auto
  have h: "Set_has S1 x = Set_has S2 x" for x
    using s by (simp add: Set_has_def)
  have w: "walkBack z S1 c k = walkBack z S2 c k" for c k
    by (rule walkBack_set_cong [OF s])
  show ?thesis
  proof (cases "es1 = []")
    case True
    with e show ?thesis by (simp add: currentStreak_def)
  next
    case False
    with e have "es2 \<noteq> []" by simp
    with False show ?thesis
      by (simp add: currentStreak_def Let_def S1_def [symmetric] S2_def [symmetric] h w)
  qed
qed

lemma setHours0_dayOf: "setHours0 z t = midnight z (dayOf z t)"
  by (simp add: setHours0_def midnight_def dayOf_def)

lemma normalized_days:
  "(\<lambda>entry. setHours0 z (date entry)) ` set es = midnight z ` entryDays z es"
  by (auto simp: setHours0_dayOf entryDays_def image_iff)

lemma currentStreak_days_cong:
  "entryDays z es1 = entryDays z es2 \<Longrightarrow> currentStreak z now es1 = currentStreak z now es2"
  by (rule currentStreak_set_cong) (simp add: normalized_days)

text \<open>Where the loop returns.\<close>

lemma walkBack_returns:
  assumes "\<And>t. setDatePrev z t < t"
  shows "\<exists>r. walkBack z S c k = Some r"
proof (induction "length (filter (\<lambda>x. x < c) S)" arbitrary: c k rule: less_induct)
  case less
  show ?case
  proof (cases "Set_has S (setDatePrev z c)")
    case True
    have "length (filter (\<lambda>x. x < setDatePrev z c) S) < length (filter (\<lambda>x. x < c) S)"
    proof (rule length_filter_less_pred)
      show "setDatePrev z c \<in> set S" using True by (simp add: Set_has_def)
      show "\<not> setDatePrev z c < setDatePrev z c" by simp
      show "setDatePrev z c < c" by (rule assms)
      show "\<And>y. y < setDatePrev z c \<Longrightarrow> y < c" using assms [of c] by simp
    qed
    from less [OF this] obtain r where "walkBack z S (setDatePrev z c) (k + 1) = Some r"
      by blast
    with True show ?thesis
      by (subst walkBack.simps) (simp add: Let_def)
  next
    case False
    then show ?thesis
      by (subst walkBack.simps) (simp add: Let_def)
  qed
qed

lemma currentStreak_returns:
  assumes "\<And>t. setDatePrev z t < t"
  shows "\<exists>n. currentStreak z now es = Some n"
  using walkBack_returns [OF assms] by (simp add: currentStreak_def Let_def)

lemma setDatePrev_eq: "setDatePrev z t = UTC z (LocalTime z t - msPerDay)"
proof -
  have "LocalTime z t = Day (LocalTime z t) * msPerDay + TimeWithinDay (LocalTime z t)"
    by (simp add: Day_def TimeWithinDay_def)
  then have "MakeDate (Day (LocalTime z t) - 1) (TimeWithinDay (LocalTime z t))
             = LocalTime z t - msPerDay"
    by (simp add: MakeDate_def algebra_simps)
  then show ?thesis by (simp add: setDatePrev_def)
qed

lemma setDatePrev_fixedZone: "setDatePrev (fixedZone off) t = t - msPerDay"
  by (simp add: setDatePrev_eq UTC_def LocalTime_def fixedZone_def fixedOffset_def)

lemma currentStreak_fixedZone_returns: "\<exists>n. currentStreak (fixedZone off) now es = Some n"
  by (rule currentStreak_returns) (simp add: setDatePrev_fixedZone msPerDay_def)

text \<open>The specification's algorithm computes the maximal run.\<close>

lemma spec_walk_run:
  "\<exists>n. spec_walk days c k = k + n \<and> (\<forall>j. 1 \<le> j \<and> j \<le> n \<longrightarrow> c - int j \<in> set days)
       \<and> c - int (Suc n) \<notin> set days"
proof (induction days c k rule: spec_walk.induct)
  case (1 days cursor streak)
  show ?case
  proof (cases "cursor - 1 \<in> set days")
    case True
    from "1.IH" [OF True] obtain n where
      r: "spec_walk days (cursor - 1) (streak + 1) = streak + 1 + n"
      and a: "\<forall>j. 1 \<le> j \<and> j \<le> n \<longrightarrow> cursor - 1 - int j \<in> set days"
      and b: "cursor - 1 - int (Suc n) \<notin> set days" by blast
    have "spec_walk days cursor streak = streak + Suc n"
      using True r by (simp add: spec_walk.simps [of days cursor])
    moreover have "\<forall>j. 1 \<le> j \<and> j \<le> Suc n \<longrightarrow> cursor - int j \<in> set days"
    proof (intro allI impI)
      fix j assume j: "1 \<le> j \<and> j \<le> Suc n"
      show "cursor - int j \<in> set days"
      proof (cases "j = 1")
        case True
        with \<open>cursor - 1 \<in> set days\<close> show ?thesis by simp
      next
        case False
        with j have "1 \<le> j - 1 \<and> j - 1 \<le> n" by arith
        with a have "cursor - 1 - int (j - 1) \<in> set days" by blast
        moreover have "cursor - 1 - int (j - 1) = cursor - int j" using j by (simp add: of_nat_diff)
        ultimately show ?thesis by simp
      qed
    qed
    moreover have "cursor - int (Suc (Suc n)) \<notin> set days"
    proof -
      have eq: "cursor - int (Suc (Suc n)) = cursor - 1 - int (Suc n)" by simp
      show ?thesis unfolding eq by (rule b)
    qed
    ultimately show ?thesis by blast
  next
    case False
    then have "spec_walk days cursor streak = streak + 0"
      by (simp add: spec_walk.simps [of days cursor])
    moreover have "cursor - int (Suc 0) \<notin> set days" using False by simp
    ultimately show ?thesis by (intro exI [of _ 0]) simp
  qed
qed

lemma set_spec_days: "set (spec_days z es) = entryDays z es"
  by (auto simp: spec_days_def entryDays_def)

lemma isMaximalRunI: "isRun D c n \<Longrightarrow> c - int n \<notin> D \<Longrightarrow> isMaximalRun D c n"
proof -
  assume r: "isRun D c n" and g: "c - int n \<notin> D"
  have "m \<le> n" if m: "isRun D c m" for m
  proof (rule ccontr)
    assume "\<not> m \<le> n"
    then have "n < m" by simp
    with m have "c - int n \<in> D" by (simp add: isRun_def)
    with g show False by simp
  qed
  with r show ?thesis by (simp add: isMaximalRun_def)
qed

lemma isMaximalRun_unique: "isMaximalRun D c n \<Longrightarrow> isMaximalRun D c m \<Longrightarrow> n = m"
  by (simp add: isMaximalRun_def le_antisym)

lemma spec_walk_maximal:
  "c \<in> set days \<Longrightarrow> isMaximalRun (set days) c (spec_walk days c 1)"
proof -
  assume c: "c \<in> set days"
  from spec_walk_run [of days c 1] obtain n where
    r: "spec_walk days c 1 = 1 + n"
    and a: "\<forall>j. 1 \<le> j \<and> j \<le> n \<longrightarrow> c - int j \<in> set days"
    and b: "c - int (Suc n) \<notin> set days" by blast
  have "isRun (set days) c (Suc n)"
    unfolding isRun_def
  proof (intro allI impI)
    fix k assume "k < Suc n"
    show "c - int k \<in> set days"
    proof (cases "k = 0")
      case True
      with c show ?thesis by simp
    next
      case False
      with \<open>k < Suc n\<close> a show ?thesis by simp
    qed
  qed
  from isMaximalRunI [OF this b] r show ?thesis by simp
qed

lemma spec_streak_maximal:
  "isMaximalRun (entryDays z es)
     (if dayOf z now \<in> entryDays z es then dayOf z now else dayOf z now - 1)
     (spec_streak z now es)"
proof -
  define days where "days = spec_days z es"
  define today where "today = dayOf z now"
  have D: "entryDays z es = set days" by (simp add: days_def set_spec_days)
  show ?thesis
  proof (cases "today \<in> set days")
    case True
    with spec_walk_maximal [OF True] show ?thesis
      by (simp add: spec_streak_def Let_def D days_def [symmetric] today_def [symmetric])
  next
    case False
    show ?thesis
    proof (cases "today - 1 \<in> set days")
      case True
      with False spec_walk_maximal [OF True] show ?thesis
        by (simp add: spec_streak_def Let_def D days_def [symmetric] today_def [symmetric])
    next
      case y: False
      have "isMaximalRun (set days) (today - 1) 0"
        by (rule isMaximalRunI) (simp_all add: isRun_def y)
      with False y show ?thesis
        by (simp add: spec_streak_def Let_def D days_def [symmetric] today_def [symmetric])
    qed
  qed
qed

text \<open>In a zone whose local midnights all exist, the code computes the specification's streak.\<close>

lemma regular_LocalTime_midnight: "regularZone z \<Longrightarrow> LocalTime z (midnight z d) = MakeDate d 0"
  by (simp add: regularZone_def)

lemma Day_MakeDate0: "Day (MakeDate d 0) = d"
  by (simp add: Day_def MakeDate_def msPerDay_def)

lemma TimeWithinDay_MakeDate0: "TimeWithinDay (MakeDate d 0) = 0"
  by (simp add: TimeWithinDay_def MakeDate_def)

lemma setDatePrev_midnight: "regularZone z \<Longrightarrow> setDatePrev z (midnight z d) = midnight z (d - 1)"
  by (simp add: setDatePrev_def regular_LocalTime_midnight Day_MakeDate0 TimeWithinDay_MakeDate0
        midnight_def [of z "d - 1"])

lemma midnight_inj: "regularZone z \<Longrightarrow> midnight z d = midnight z d' \<longleftrightarrow> d = d'"
proof
  assume r: "regularZone z" and e: "midnight z d = midnight z d'"
  then have "LocalTime z (midnight z d) = LocalTime z (midnight z d')" by simp
  with r have "MakeDate d 0 = MakeDate d' 0" by (simp add: regular_LocalTime_midnight)
  then have "Day (MakeDate d 0) = Day (MakeDate d' 0)" by simp
  then show "d = d'" by (simp only: Day_MakeDate0)
next
  assume "d = d'"
  then show "midnight z d = midnight z d'" by simp
qed

lemma walkBack_spec_walk:
  "regularZone z \<Longrightarrow> set S = midnight z ` set days \<Longrightarrow>
   walkBack z S (midnight z c) k = Some (spec_walk days c k)"
proof (induction days c k rule: spec_walk.induct)
  case (1 days cursor streak)
  have mem: "Set_has S (setDatePrev z (midnight z cursor)) \<longleftrightarrow> cursor - 1 \<in> set days"
    using "1.prems" by (auto simp: Set_has_def setDatePrev_midnight midnight_inj)
  show ?case
  proof (cases "cursor - 1 \<in> set days")
    case True
    from "1.IH" [OF True "1.prems"] True mem show ?thesis
      by (subst walkBack.simps)
         (simp add: Let_def spec_walk.simps [of days cursor] setDatePrev_midnight [OF "1.prems"(1)])
  next
    case False
    with mem show ?thesis
      by (subst walkBack.simps) (simp add: Let_def spec_walk.simps [of days cursor])
  qed
qed

lemma currentStreak_regular:
  assumes r: "regularZone z"
  shows "currentStreak z now es = Some (spec_streak z now es)"
proof (cases "es = []")
  case True
  then show ?thesis
    by (simp add: currentStreak_def spec_streak_def spec_days_def)
next
  case False
  define S where "S = Set_new (map (\<lambda>entry. setHours0 z (date entry)) (sort_key (\<lambda>e. - date e) es))"
  define days where "days = spec_days z es"
  define today where "today = dayOf z now"
  have S: "set S = midnight z ` set days"
    by (simp add: S_def days_def set_Set_new set_spec_days normalized_days)
  have t: "setHours0 z now = midnight z today"
    by (simp add: today_def setHours0_dayOf)
  have has: "Set_has S (midnight z d) \<longleftrightarrow> d \<in> set days" for d
    using S r by (auto simp: Set_has_def midnight_inj)
  have w: "walkBack z S (midnight z d) k = Some (spec_walk days d k)" for d k
    by (rule walkBack_spec_walk [OF r S])
  have "currentStreak z now es =
        (if Set_has S (midnight z today) then walkBack z S (midnight z today) 1
         else if \<not> Set_has S (midnight z (today - 1)) then Some 0
         else walkBack z S (midnight z (today - 1)) 1)"
    using False
    by (simp add: currentStreak_def Let_def S_def [symmetric] t setDatePrev_midnight [OF r])
  also have "\<dots> = Some (if today \<in> set days then spec_walk days today 1
                   else if today - 1 \<in> set days then spec_walk days (today - 1) 1 else 0)"
    by (simp add: has w)
  also have "\<dots> = Some (spec_streak z now es)"
    by (simp add: spec_streak_def Let_def days_def today_def)
  finally show ?thesis .
qed

lemma currentStreak_regular_maximal:
  "regularZone z \<Longrightarrow>
   \<exists>n. currentStreak z now es = Some n \<and>
       isMaximalRun (entryDays z es)
         (if dayOf z now \<in> entryDays z es then dayOf z now else dayOf z now - 1) n"
  using currentStreak_regular [of z now es] spec_streak_maximal [of z es now] by blast

lemma regularZone_fixedZone: "regularZone (fixedZone off)"
  by (simp add: regularZone_def midnight_def LocalTime_def UTC_def fixedZone_def fixedOffset_def)

lemma not_regularZone_cairo2025: "\<not> regularZone cairo2025"
proof
  assume "regularZone cairo2025"
  then have "LocalTime cairo2025 (midnight cairo2025 20203) = MakeDate 20203 0"
    by (rule regular_LocalTime_midnight)
  then show False
    by (simp add: LocalTime_def midnight_def UTC_def MakeDate_def msPerDay_def cairo2025_def
          cairoUtcOffset_def cairoLocalOffset_def)
qed

lemma regularZone_newYork2025: "regularZone newYork2025"
  unfolding regularZone_def
proof
  fix d :: int
  consider "d \<le> 20156" | "20157 \<le> d \<and> d \<le> 20394" | "20395 \<le> d" by linarith
  then show "LocalTime newYork2025 (midnight newYork2025 d) = MakeDate d 0"
    by cases
      (simp_all add: LocalTime_def midnight_def UTC_def MakeDate_def msPerDay_def newYork2025_def
        newYorkUtcOffset_def newYorkLocalOffset_def)
qed

text \<open>
  New York on 3 November 2025, the day after the clocks went back at 02:00, with entries
  today and at 00:30 the day before: the streak is 2.
\<close>

lemma currentStreak_newYork_after_change:
  "currentStreak newYork2025 1762189200000 [entryAt 1762178400000, entryAt 1762057800000]
   = Some 2"
  by code_simp

subsection \<open>Duplicates and concrete days\<close>

lemma entryDays_Cons: "entryDays z (e # es) = insert (dayOf z (date e)) (entryDays z es)"
  by (simp add: entryDays_def)

lemma entryDays_dedupByDay: "entryDays z (dedupByDay z es) = entryDays z es"
proof (induction z es rule: dedupByDay.induct)
  case (1 z)
  then show ?case by simp
next
  case (2 z e es)
  have "entryDays z (filter (\<lambda>x. dayOf z (date x) \<noteq> dayOf z (date e)) es)
        = entryDays z es - {dayOf z (date e)}"
    by (auto simp: entryDays_def)
  with 2 show ?case by (auto simp: entryDays_Cons)
qed

lemma distinct_dedupByDay: "distinct (map (\<lambda>e. dayOf z (date e)) (dedupByDay z es))"
proof (induction z es rule: dedupByDay.induct)
  case (1 z)
  then show ?case by simp
next
  case (2 z e es)
  have "dayOf z (date e) \<notin> entryDays z (dedupByDay z (filter (\<lambda>x. dayOf z (date x) \<noteq> dayOf z (date e)) es))"
    unfolding entryDays_dedupByDay by (auto simp: entryDays_def)
  then have "dayOf z (date e) \<notin> (\<lambda>e. dayOf z (date e)) ` set (dedupByDay z (filter (\<lambda>x. dayOf z (date x) \<noteq> dayOf z (date e)) es))"
    by (simp add: entryDays_def image_image)
  with 2 show ?case by simp
qed

lemma length_dedupByDay_le: "length (dedupByDay z es) \<le> length es"
proof (induction z es rule: dedupByDay.induct)
  case (1 z)
  then show ?case by simp
next
  case (2 z e es)
  note "2.IH"
  also have "length (filter (\<lambda>x. dayOf z (date x) \<noteq> dayOf z (date e)) es) \<le> length es"
    by (rule length_filter_le)
  finally show ?case by simp
qed

lemma dedupByDay_id: "distinct (map (\<lambda>e. dayOf z (date e)) es) \<Longrightarrow> dedupByDay z es = es"
proof (induction z es rule: dedupByDay.induct)
  case (1 z)
  then show ?case by simp
next
  case (2 z e es)
  from "2.prems" have f: "filter (\<lambda>x. dayOf z (date x) \<noteq> dayOf z (date e)) es = es"
    by (auto simp: filter_id_conv image_iff)
  from "2.prems" have "distinct (map (\<lambda>e. dayOf z (date e)) es)" by simp
  with "2.IH" f show ?case by simp
qed

lemma length_dedupByDay_less:
  "\<not> distinct (map (\<lambda>e. dayOf z (date e)) es) \<Longrightarrow> length (dedupByDay z es) < length es"
proof -
  assume nd: "\<not> distinct (map (\<lambda>e. dayOf z (date e)) es)"
  have "length (dedupByDay z es) \<noteq> length es"
  proof
    assume l: "length (dedupByDay z es) = length es"
    have "card (entryDays z es) = card (entryDays z (dedupByDay z es))"
      by (simp add: entryDays_dedupByDay)
    also have "entryDays z (dedupByDay z es) = set (map (\<lambda>e. dayOf z (date e)) (dedupByDay z es))"
      by (simp add: entryDays_def image_image)
    also have "card \<dots> = length (map (\<lambda>e. dayOf z (date e)) (dedupByDay z es))"
      by (rule distinct_card [OF distinct_dedupByDay])
    also have "\<dots> = length (map (\<lambda>e. dayOf z (date e)) es)" using l by simp
    finally have "card (set (map (\<lambda>e. dayOf z (date e)) es)) = length (map (\<lambda>e. dayOf z (date e)) es)"
      by (simp add: entryDays_def image_image)
    then have "distinct (map (\<lambda>e. dayOf z (date e)) es)" by (rule card_distinct)
    with nd show False by simp
  qed
  with length_dedupByDay_le [of z es] show ?thesis by simp
qed

lemma entryDays_list:
  "entryDays z [] = {}"
  "entryDays z (e # es) = insert (dayOf z (date e)) (entryDays z es)"
  by (simp_all add: entryDays_def)

lemmas eval_days = entryDays_list dayOf_def Day_def LocalTime_def msPerDay_def entryAt_def
  fixedZone_def fixedOffset_def

text \<open>
  In a zone whose local midnights all exist the specification's examples hold, and the
  empty list gives streak 0 and 0 points in every zone.
\<close>

lemma streak_examples_regular:
  assumes r: "regularZone z"
  shows "(entryDays z es = {dayOf z now} \<longrightarrow> currentStreak z now es = Some 1) \<and>
   (entryDays z es = {dayOf z now, dayOf z now - 1, dayOf z now - 2}
      \<longrightarrow> currentStreak z now es = Some 3) \<and>
   (entryDays z es = {dayOf z now - 1, dayOf z now - 2} \<longrightarrow> currentStreak z now es = Some 2) \<and>
   (entryDays z es = {dayOf z now - 2} \<longrightarrow> currentStreak z now es = Some 0)"
proof -
  define t where "t = dayOf z now"
  define D where "D = entryDays z es"
  define n where "n = spec_streak z now es"
  have cs: "currentStreak z now es = Some n"
    unfolding n_def by (rule currentStreak_regular [OF r])
  have mx: "isMaximalRun D (if t \<in> D then t else t - 1) n"
    unfolding t_def D_def n_def by (rule spec_streak_maximal)
  have lt3: "k < 3 \<longleftrightarrow> k = 0 \<or> k = 1 \<or> k = 2" for k :: nat by arith
  have lt2: "k < 2 \<longleftrightarrow> k = 0 \<or> k = 1" for k :: nat by arith
  have a: "n = 1" if h: "D = {t}"
  proof -
    have "isMaximalRun D t 1" by (rule isMaximalRunI) (simp_all add: isRun_def h)
    moreover from mx h have "isMaximalRun D t n" by simp
    ultimately show ?thesis by (metis isMaximalRun_unique)
  qed
  have b: "n = 3" if h: "D = {t, t - 1, t - 2}"
  proof -
    have "isMaximalRun D t 3" by (rule isMaximalRunI) (auto simp: isRun_def h lt3)
    moreover from mx h have "isMaximalRun D t n" by simp
    ultimately show ?thesis by (metis isMaximalRun_unique)
  qed
  have c: "n = 2" if h: "D = {t - 1, t - 2}"
  proof -
    have "isMaximalRun D (t - 1) 2" by (rule isMaximalRunI) (auto simp: isRun_def h lt2)
    moreover from mx h have "isMaximalRun D (t - 1) n" by simp
    ultimately show ?thesis by (metis isMaximalRun_unique)
  qed
  have d: "n = 0" if h: "D = {t - 2}"
  proof -
    have "isMaximalRun D (t - 1) 0" by (rule isMaximalRunI) (simp_all add: isRun_def h)
    moreover from mx h have "isMaximalRun D (t - 1) n" by simp
    ultimately show ?thesis by (metis isMaximalRun_unique)
  qed
  from a b c d show ?thesis unfolding cs t_def [symmetric] D_def [symmetric] by simp
qed

lemma currentStreak_empty: "currentStreak z now [] = Some 0 \<and> totalPoints [] = 0"
  by (simp add: currentStreak_def totalPoints_def)

text \<open>
  Claim C1 at Cairo on 25 April 2025, the day the clocks skip midnight, with the
  current time at noon and entries at 10:00 on that day and on the two days before:
  the maximal run of days ending today has length 3, which the specification's
  algorithm computes, and \<open>currentStreak\<close> is 1. The day after, with one more entry, the
  run has length 4 and \<open>currentStreak\<close> is 2. Today's date is normalised to 01:00, the
  day before it is looked up at 01:00, and the set holds it at 00:00.
\<close>

theorem C1_currentStreak_cairo_transition_day:
  "currentStreak cairo2025 1745571600000
     [entryAt 1745564400000, entryAt 1745481600000, entryAt 1745395200000] = Some 1 \<and>
   spec_streak cairo2025 1745571600000
     [entryAt 1745564400000, entryAt 1745481600000, entryAt 1745395200000] = 3 \<and>
   currentStreak cairo2025 1745658000000
     [entryAt 1745650800000, entryAt 1745564400000, entryAt 1745481600000, entryAt 1745395200000]
     = Some 2 \<and>
   spec_streak cairo2025 1745658000000
     [entryAt 1745650800000, entryAt 1745564400000, entryAt 1745481600000, entryAt 1745395200000]
     = 4"
  by code_simp

text \<open>
  Claim C2 at Cairo on 25 April 2025: the entries of the second example are on today,
  yesterday and the day before, and \<open>currentStreak\<close> is 1 where the example says 3; the
  entries of the third example are on yesterday and the day before, and
  \<open>currentStreak\<close> is 0 where the example says 2.
\<close>

theorem C2_streak_examples_cairo_transition_day:
  "dayOf cairo2025 1745571600000 = 20203 \<and>
   entryDays cairo2025 [entryAt 1745564400000, entryAt 1745481600000, entryAt 1745395200000]
     = {20203, 20203 - 1, 20203 - 2} \<and>
   currentStreak cairo2025 1745571600000
     [entryAt 1745564400000, entryAt 1745481600000, entryAt 1745395200000] = Some 1 \<and>
   entryDays cairo2025 [entryAt 1745481600000, entryAt 1745395200000]
     = {20203 - 1, 20203 - 2} \<and>
   currentStreak cairo2025 1745571600000 [entryAt 1745481600000, entryAt 1745395200000] = Some 0"
proof -
  have d: "dayOf cairo2025 1745571600000 = 20203"
    by (simp add: dayOf_def Day_def LocalTime_def msPerDay_def cairo2025_def cairoUtcOffset_def)
  have e3: "entryDays cairo2025 [entryAt 1745564400000, entryAt 1745481600000, entryAt 1745395200000]
     = {20203, 20203 - 1, 20203 - 2}"
    by (simp add: entryDays_list dayOf_def Day_def LocalTime_def msPerDay_def entryAt_def
          cairo2025_def cairoUtcOffset_def)
  have e2: "entryDays cairo2025 [entryAt 1745481600000, entryAt 1745395200000]
     = {20203 - 1, 20203 - 2}"
    by (simp add: entryDays_list dayOf_def Day_def LocalTime_def msPerDay_def entryAt_def
          cairo2025_def cairoUtcOffset_def)
  have s3: "currentStreak cairo2025 1745571600000
     [entryAt 1745564400000, entryAt 1745481600000, entryAt 1745395200000] = Some 1"
    by code_simp
  have s2: "currentStreak cairo2025 1745571600000
     [entryAt 1745481600000, entryAt 1745395200000] = Some 0"
    by code_simp
  from d e3 e2 s3 s2 show ?thesis by blast
qed

text \<open>
  Claim C3. For every entry list, also one with several entries on the same calendar
  day, \<open>totalPoints\<close> is 10 times the number of entries.
\<close>

theorem C3_totalPoints:
  "totalPoints entries = 10 * length entries"
  by (simp add: totalPoints_def)

text \<open>
  Claim C4. Entries on the same calendar day count once toward the streak: the streak
  of a list is the streak of the list with the duplicates removed (which has the same
  days, each once), and an entry added on a day that already has one leaves the streak
  as it is. Each duplicate still brings 10 points: the points of the list are those
  of the deduplicated list plus 10 for every entry removed.
\<close>

theorem C4_duplicates_count_once_for_streak:
  "currentStreak z now entries = currentStreak z now (dedupByDay z entries) \<and>
   distinct (map (\<lambda>e. dayOf z (date e)) (dedupByDay z entries)) \<and>
   entryDays z (dedupByDay z entries) = entryDays z entries \<and>
   totalPoints entries
     = totalPoints (dedupByDay z entries) + 10 * (length entries - length (dedupByDay z entries)) \<and>
   (\<not> distinct (map (\<lambda>e. dayOf z (date e)) entries)
      \<longrightarrow> totalPoints (dedupByDay z entries) < totalPoints entries) \<and>
   (dayOf z (date e) \<in> entryDays z entries
      \<longrightarrow> currentStreak z now (e # entries) = currentStreak z now entries
          \<and> totalPoints (e # entries) = totalPoints entries + 10)"
proof -
  have s: "currentStreak z now entries = currentStreak z now (dedupByDay z entries)"
    by (rule currentStreak_days_cong) (simp add: entryDays_dedupByDay)
  have p: "totalPoints entries
     = totalPoints (dedupByDay z entries) + 10 * (length entries - length (dedupByDay z entries))"
    using length_dedupByDay_le [of z entries] by (simp add: totalPoints_def)
  have l: "totalPoints (dedupByDay z entries) < totalPoints entries"
    if "\<not> distinct (map (\<lambda>e. dayOf z (date e)) entries)"
    using length_dedupByDay_less [OF that] by (simp add: totalPoints_def)
  have c: "currentStreak z now (e # entries) = currentStreak z now entries"
    if "dayOf z (date e) \<in> entryDays z entries"
    by (rule currentStreak_days_cong) (use that in \<open>auto simp: entryDays_Cons\<close>)
  have t: "totalPoints (e # entries) = totalPoints entries + 10"
    by (simp add: totalPoints_def)
  from s p l c t distinct_dedupByDay [of z entries] entryDays_dedupByDay [of z entries]
  show ?thesis by blast
qed

theorem C4_duplicates_count_once_for_streak_witness:
  "totalPoints (dedupByDay (fixedZone 19800000)
      [entryAt 1762166400000, entryAt 1762110000000, entryAt 1762080000000])
   < totalPoints [entryAt 1762166400000, entryAt 1762110000000, entryAt 1762080000000] \<and>
   currentStreak (fixedZone 19800000) 1762166400000
      [entryAt 1762166400000, entryAt 1762110000000, entryAt 1762080000000]
   = currentStreak (fixedZone 19800000) 1762166400000 [entryAt 1762110000000, entryAt 1762080000000] \<and>
   totalPoints [entryAt 1762166400000, entryAt 1762110000000, entryAt 1762080000000]
   = totalPoints [entryAt 1762110000000, entryAt 1762080000000] + 10 \<and>
   currentStreak (fixedZone 19800000) 1762166400000
      [entryAt 1762110000000, entryAt 1762080000000] = Some 2"
proof -
  have v: "currentStreak (fixedZone 19800000) 1762166400000
      [entryAt 1762110000000, entryAt 1762080000000] = Some 2"
    by code_simp
  let ?e = "entryAt 1762166400000"
  let ?es = "[entryAt 1762110000000, entryAt 1762080000000]"
  have h1: "\<not> distinct (map (\<lambda>e. dayOf (fixedZone 19800000) (date e)) (?e # ?es))"
    by (simp add: eval_days)
  have h2: "dayOf (fixedZone 19800000) (date ?e) \<in> entryDays (fixedZone 19800000) ?es"
    by (simp add: eval_days)
  from C4_duplicates_count_once_for_streak [of "fixedZone 19800000" 1762166400000 "?e # ?es" ?e] h1
  have r1: "totalPoints (dedupByDay (fixedZone 19800000) (?e # ?es)) < totalPoints (?e # ?es)" by blast
  from C4_duplicates_count_once_for_streak [of "fixedZone 19800000" 1762166400000 ?es ?e] h2
  have r2: "currentStreak (fixedZone 19800000) 1762166400000 (?e # ?es) = currentStreak (fixedZone 19800000) 1762166400000 ?es
            \<and> totalPoints (?e # ?es) = totalPoints ?es + 10" by blast
  from r1 r2 v show ?thesis by blast
qed

text \<open>
  Claim C9. \<open>currentStreak\<close> depends only on the set of calendar days the entries'
  dates normalise to (as the time values \<open>setHours(0, 0, 0, 0)\<close> gives, or as day numbers):
  two lists with the same set of days have the same streak, in particular a permutation
  of a list, a list appended to itself and a list with every entry doubled.
\<close>

theorem C9_streak_depends_only_on_days:
  "((\<lambda>entry. setHours0 z (date entry)) ` set es1 = (\<lambda>entry. setHours0 z (date entry)) ` set es2
      \<longrightarrow> currentStreak z now es1 = currentStreak z now es2) \<and>
   (entryDays z es1 = entryDays z es2
      \<longrightarrow> currentStreak z now es1 = currentStreak z now es2) \<and>
   (mset es1 = mset es2 \<longrightarrow> currentStreak z now es1 = currentStreak z now es2) \<and>
   currentStreak z now (es1 @ es1) = currentStreak z now es1 \<and>
   currentStreak z now (concat (map (\<lambda>e. [e, e]) es1)) = currentStreak z now es1"
proof -
  have a: "currentStreak z now es1 = currentStreak z now es2"
    if "(\<lambda>entry. setHours0 z (date entry)) ` set es1 = (\<lambda>entry. setHours0 z (date entry)) ` set es2"
    using that by (rule currentStreak_set_cong)
  have b: "currentStreak z now es1 = currentStreak z now es2" if "mset es1 = mset es2"
  proof -
    from that have "set es1 = set es2" by (rule mset_eq_setD)
    then show ?thesis by (intro currentStreak_days_cong) (simp add: entryDays_def)
  qed
  have c: "currentStreak z now (es1 @ es1) = currentStreak z now es1"
    by (rule currentStreak_days_cong) (simp add: entryDays_def)
  have d: "currentStreak z now (concat (map (\<lambda>e. [e, e]) es1)) = currentStreak z now es1"
    by (rule currentStreak_days_cong) (auto simp: entryDays_def)
  from a b c d currentStreak_days_cong [of z es1 es2 now] show ?thesis by blast
qed

theorem C9_streak_depends_only_on_days_witness:
  "currentStreak (fixedZone 19800000) 1762166400000
      [entryAt 1762166400000, entryAt 1762110000000, entryAt 1762080000000]
   = currentStreak (fixedZone 19800000) 1762166400000 [entryAt 1762080000000, entryAt 1762110000000] \<and>
   currentStreak (fixedZone 19800000) 1762166400000 [entryAt 1762000000000, entryAt 1762110000000]
   = currentStreak (fixedZone 19800000) 1762166400000 [entryAt 1762110000000, entryAt 1762000000000] \<and>
   currentStreak (fixedZone 19800000) 1762166400000
      [entryAt 1762080000000, entryAt 1762110000000] = Some 2"
proof -
  have v: "currentStreak (fixedZone 19800000) 1762166400000
      [entryAt 1762080000000, entryAt 1762110000000] = Some 2"
    by code_simp
  let ?a = "[entryAt 1762166400000, entryAt 1762110000000, entryAt 1762080000000]"
  let ?b = "[entryAt 1762080000000, entryAt 1762110000000]"
  let ?c = "[entryAt 1762000000000, entryAt 1762110000000]"
  let ?d = "[entryAt 1762110000000, entryAt 1762000000000]"
  have h1: "(\<lambda>entry. setHours0 (fixedZone 19800000) (date entry)) ` set ?a
            = (\<lambda>entry. setHours0 (fixedZone 19800000) (date entry)) ` set ?b"
    by (auto simp add: setHours0_def UTC_def MakeDate_def eval_days)
  have h2: "entryDays (fixedZone 19800000) ?a = entryDays (fixedZone 19800000) ?b"
    by (auto simp add: eval_days)
  have h3: "mset ?c = mset ?d" by (simp add: entryAt_def)
  from C9_streak_depends_only_on_days [of "fixedZone 19800000" ?a ?b 1762166400000] h1 h2
  have r1: "currentStreak (fixedZone 19800000) 1762166400000 ?a = currentStreak (fixedZone 19800000) 1762166400000 ?b"
    by blast
  from C9_streak_depends_only_on_days [of "fixedZone 19800000" ?c ?d 1762166400000] h3
  have r2: "currentStreak (fixedZone 19800000) 1762166400000 ?c = currentStreak (fixedZone 19800000) 1762166400000 ?d"
    by blast
  from r1 r2 v show ?thesis by blast
qed

section \<open>Properties of the Auth Service\<close>

lemmas outcome_simps =
  failsWith401_def responses_def outcomes_def List.map_filter_simps

lemma protect_no_header:
  "authorization req = None \<Longrightarrow>
   protect jwt_verify findById req
     = (req, [Respond 401 [(''message'', ''Not authorized, no token'')]])"
  by (simp add: protect_def truthy_def)

lemma protect_token_missing:
  "\<not> truthy (presentedToken req) \<Longrightarrow> isl (jwt_verify None) \<Longrightarrow> isl (jwt_verify (Some [])) \<Longrightarrow>
   failsWith401 (snd (protect jwt_verify findById req))"
  by (auto simp: protect_def protect_try_def presentedToken_def truthy_def outcome_simps isl_def Let_def
           split: option.splits sum.splits if_splits)

lemma protect_token_present:
  "truthy (presentedToken req) \<Longrightarrow>
   protect jwt_verify findById req =
     (case protect_try jwt_verify findById (presentedToken req) req of
        (req', done, None) \<Rightarrow> (req', done)
      | (req', done, Some error) \<Rightarrow>
          (req', done @ [ConsoleError [''Token failed:'', message error],
                         Respond 401 [(''message'', ''Not authorized, token failed'')]]))"
  by (auto simp: protect_def presentedToken_def truthy_def Let_def
           split: option.splits if_splits prod.splits)

lemma protect_try_cases:
  "protect_try jwt_verify findById token req =
     (case jwt_verify token of
        Inl error \<Rightarrow> (req, [], Some error)
      | Inr d \<Rightarrow>
          (case findById (decoded_id d) of
             Inl error \<Rightarrow> (req, [], Some error)
           | Inr None \<Rightarrow> (req\<lparr>req_user := None\<rparr>, [], Some (Error ''User not found''))
           | Inr (Some u) \<Rightarrow> (req\<lparr>req_user := Some u\<rparr>, [Next], None)))"
  by (simp add: protect_try_def Let_def split: sum.splits option.splits)

lemma protect_verified:
  "verification jwt_verify findById req = Verified u \<Longrightarrow>
   protect jwt_verify findById req = (req\<lparr>req_user := Some u\<rparr>, [Next])"
proof -
  assume v: "verification jwt_verify findById req = Verified u"
  then have t: "truthy (presentedToken req)"
    by (auto simp: verification_def Let_def split: if_splits)
  from v t obtain d where d: "jwt_verify (presentedToken req) = Inr d"
    and f: "findById (decoded_id d) = Inr (Some u)"
    by (auto simp: verification_def Let_def split: sum.splits option.splits)
  show ?thesis
    by (simp add: protect_token_present [OF t] protect_try_cases d f)
qed

lemma protect_not_verified:
  assumes "isl (jwt_verify None)" and "isl (jwt_verify (Some []))"
    and "\<not> isVerified (verification jwt_verify findById req)"
  shows "failsWith401 (snd (protect jwt_verify findById req))"
proof (cases "truthy (presentedToken req)")
  case False
  from protect_token_missing [OF False assms(1) assms(2)] show ?thesis .
next
  case True
  from assms(3) True show ?thesis
    by (auto simp: protect_token_present [OF True] protect_try_cases verification_def Let_def
          outcome_simps split: sum.splits option.splits)
qed

lemma verified_not_fails:
  "isVerified (verification jwt_verify findById req) \<Longrightarrow>
   \<not> failsWith401 (snd (protect jwt_verify findById req))"
proof -
  assume "isVerified (verification jwt_verify findById req)"
  then obtain u where "verification jwt_verify findById req = Verified u"
    by (cases "verification jwt_verify findById req") simp_all
  from protect_verified [OF this] show ?thesis by (simp add: failsWith401_def)
qed

lemma not_verified_iff: "\<not> isVerified v \<longleftrightarrow> isAuthError v \<or> isLookupThrew v"
  by (cases v) simp_all

text \<open>
  Claim C5. A request to /api/moods without an Authorization header: \<open>protect\<close> sends
  one response, status 401 with a JSON body that has a \<open>message\<close> field, and does not
  call \<open>next()\<close>; so the route does not invoke the handler, whatever it is, and leaves
  the store as it was.
\<close>

theorem C5_no_authorization_header:
  "authorization req = None \<Longrightarrow>
   protect jwt_verify findById req
     = (req, [Respond 401 [(''message'', ''Not authorized, no token'')]]) \<and>
   failsWith401 (snd (protect jwt_verify findById req)) \<and>
   Next \<notin> set (snd (protect jwt_verify findById req)) \<and>
   moodsRoute jwt_verify findById handler req store
     = ([Respond 401 [(''message'', ''Not authorized, no token'')]], store)"
  by (simp add: protect_no_header moodsRoute_def outcome_simps)

theorem C5_no_authorization_header_witness:
  "moodsRoute sampleVerify sampleLookup writingHandler
     \<lparr>authorization = None, req_user = None\<rparr> [''sad'']
   = ([Respond 401 [(''message'', ''Not authorized, no token'')]], [''sad'']) \<and>
   moodsRoute sampleVerify sampleLookup writingHandler
     \<lparr>authorization = Some ''Bearer good.token'', req_user = None\<rparr> [''sad'']
   = ([Next, Respond 201 [(''mood'', ''happy'')]], [''happy'', ''sad''])"
proof -
  have h: "authorization \<lparr>authorization = None, req_user = None\<rparr> = None" by simp
  from C5_no_authorization_header [OF h, of sampleVerify sampleLookup writingHandler "[''sad'']"]
  have a: "moodsRoute sampleVerify sampleLookup writingHandler
     \<lparr>authorization = None, req_user = None\<rparr> [''sad'']
   = ([Respond 401 [(''message'', ''Not authorized, no token'')]], [''sad''])" by blast
  have b: "moodsRoute sampleVerify sampleLookup writingHandler
     \<lparr>authorization = Some ''Bearer good.token'', req_user = None\<rparr> [''sad'']
   = ([Next, Respond 201 [(''mood'', ''happy'')]], [''happy'', ''sad''])"
    by (simp add: moodsRoute_def protect_def protect_try_def sampleVerify_def sampleLookup_def
          writingHandler_def startsWith_def nth_opt_def truthy_def Let_def)
  from a b show ?thesis by blast
qed

text \<open>
  Claim C6, amended. For a verifier that rejects an absent or empty token (as
  \<open>jwt.verify\<close> does), \<open>protect\<close> answers 401 without invoking the handler exactly when the
  presented token is missing, or the verifier rejects it, or it verifies and the user
  it names does not exist, or the lookup of that user itself throws; when the token
  verifies and the lookup gives a user, \<open>protect\<close> calls \<open>next()\<close>, sends nothing, and
  has attached that user to the request.
\<close>

theorem C6_protect_verification:
  "isl (jwt_verify None) \<and> isl (jwt_verify (Some [])) \<Longrightarrow>
   (failsWith401 (snd (protect jwt_verify findById req))
      \<longleftrightarrow> isAuthError (verification jwt_verify findById req)
          \<or> isLookupThrew (verification jwt_verify findById req)) \<and>
   (verification jwt_verify findById req = Verified u
      \<longrightarrow> protect jwt_verify findById req = (req\<lparr>req_user := Some u\<rparr>, [Next]))"
proof -
  assume h: "isl (jwt_verify None) \<and> isl (jwt_verify (Some []))"
  have "failsWith401 (snd (protect jwt_verify findById req))
        \<longleftrightarrow> \<not> isVerified (verification jwt_verify findById req)"
    using h protect_not_verified [of jwt_verify findById req]
      verified_not_fails [of jwt_verify findById req] by blast
  then show ?thesis
    using protect_verified [of jwt_verify findById req u] by (simp only: not_verified_iff) blast
qed

theorem C6_protect_verification_witness:
  "failsWith401 (snd (protect sampleVerify sampleLookup
      \<lparr>authorization = Some ''Bearer bad.token'', req_user = None\<rparr>)) \<and>
   failsWith401 (snd (protect sampleVerify failingLookup
      \<lparr>authorization = Some ''Bearer good.token'', req_user = None\<rparr>)) \<and>
   protect sampleVerify sampleLookup \<lparr>authorization = Some ''Bearer good.token'', req_user = None\<rparr>
   = (\<lparr>authorization = Some ''Bearer good.token'',
        req_user = Some \<lparr>user_id = ''u1'', username = ''ann''\<rparr>\<rparr>, [Next])"
proof -
  have h: "isl (sampleVerify None) \<and> isl (sampleVerify (Some []))"
    by (simp add: sampleVerify_def truthy_def)
  have v1: "verification sampleVerify sampleLookup
      \<lparr>authorization = Some ''Bearer bad.token'', req_user = None\<rparr>
      = TokenRejected (Error ''jwt malformed'')"
    by (simp add: verification_def presentedToken_def sampleVerify_def startsWith_def nth_opt_def
          truthy_def Let_def)
  have v2: "verification sampleVerify failingLookup
      \<lparr>authorization = Some ''Bearer good.token'', req_user = None\<rparr>
      = LookupThrew (Error ''connection closed'')"
    by (simp add: verification_def presentedToken_def sampleVerify_def failingLookup_def
          startsWith_def nth_opt_def truthy_def Let_def)
  have v3: "verification sampleVerify sampleLookup
      \<lparr>authorization = Some ''Bearer good.token'', req_user = None\<rparr>
      = Verified \<lparr>user_id = ''u1'', username = ''ann''\<rparr>"
    by (simp add: verification_def presentedToken_def sampleVerify_def sampleLookup_def
          startsWith_def nth_opt_def truthy_def Let_def)
  from C6_protect_verification [OF h, of sampleLookup
      "\<lparr>authorization = Some ''Bearer bad.token'', req_user = None\<rparr>"] v1
  have a: "failsWith401 (snd (protect sampleVerify sampleLookup
      \<lparr>authorization = Some ''Bearer bad.token'', req_user = None\<rparr>))" by simp
  from C6_protect_verification [OF h, of failingLookup
      "\<lparr>authorization = Some ''Bearer good.token'', req_user = None\<rparr>"] v2
  have b: "failsWith401 (snd (protect sampleVerify failingLookup
      \<lparr>authorization = Some ''Bearer good.token'', req_user = None\<rparr>))" by simp
  from C6_protect_verification [OF h, of sampleLookup
      "\<lparr>authorization = Some ''Bearer good.token'', req_user = None\<rparr>"
      "\<lparr>user_id = ''u1'', username = ''ann''\<rparr>"] v3
  have c: "protect sampleVerify sampleLookup
      \<lparr>authorization = Some ''Bearer good.token'', req_user = None\<rparr>
   = (\<lparr>authorization = Some ''Bearer good.token'',
        req_user = Some \<lparr>user_id = ''u1'', username = ''ann''\<rparr>\<rparr>, [Next])" by simp
  from a b c show ?thesis by blast
qed

theorem C6_lookup_failure_counterexample:
  "failsWith401 (snd (protect sampleVerify failingLookup
      \<lparr>authorization = Some ''Bearer good.token'', req_user = None\<rparr>)) \<and>
   \<not> isAuthError (verification sampleVerify failingLookup
      \<lparr>authorization = Some ''Bearer good.token'', req_user = None\<rparr>)"
  by (simp add: protect_def protect_try_def verification_def presentedToken_def sampleVerify_def
        failingLookup_def startsWith_def nth_opt_def truthy_def Let_def outcome_simps)

text \<open>
  Every other request has one outcome: a request that presents a non-empty token, and a
  request whose header is absent, empty or does not start with \<open>Bearer\<close>.
\<close>

lemma protect_single_outcome_token:
  "truthy (presentedToken req) \<Longrightarrow>
   length (outcomes (snd (protect jwt_verify findById req))) = 1"
  by (simp add: protect_token_present protect_try_cases outcomes_def
        split: sum.splits option.splits)

lemma protect_single_outcome_no_bearer:
  "authorization req = None \<or> authorization req = Some h \<and> (h = [] \<or> \<not> startsWith h ''Bearer'') \<Longrightarrow>
   protect jwt_verify findById req
     = (req, [Respond 401 [(''message'', ''Not authorized, no token'')]])"
  by (auto simp: protect_def truthy_def)

text \<open>
  Claim C10 at the header \<open>Authorization: Bearer\<close> (no token after the scheme): whatever
  the verifier and the lookup do, \<open>protect\<close> produces two outcomes for the one request,
  either two 401 responses or a call of \<open>next()\<close> followed by a 401 response.
\<close>

theorem C10_protect_bare_Bearer_two_outcomes:
  "outcomes (snd (protect jwt_verify findById \<lparr>authorization = Some ''Bearer'', req_user = None\<rparr>))
     = [Respond 401 [(''message'', ''Not authorized, token failed'')],
        Respond 401 [(''message'', ''Not authorized, no token'')]] \<or>
   outcomes (snd (protect jwt_verify findById \<lparr>authorization = Some ''Bearer'', req_user = None\<rparr>))
     = [Next, Respond 401 [(''message'', ''Not authorized, no token'')]]"
  by (auto simp: protect_def protect_try_def startsWith_def nth_opt_def truthy_def Let_def
        outcomes_def split: sum.splits option.splits)

lemma protect_bare_Bearer_jsonwebtoken:
  "protect sampleVerify findById \<lparr>authorization = Some ''Bearer'', req_user = None\<rparr>
   = (\<lparr>authorization = Some ''Bearer'', req_user = None\<rparr>,
      [ConsoleError [''Token failed:'', ''jwt must be provided''],
       Respond 401 [(''message'', ''Not authorized, token failed'')],
       Respond 401 [(''message'', ''Not authorized, no token'')]])"
  by (simp add: protect_def protect_try_def sampleVerify_def startsWith_def nth_opt_def
        truthy_def Let_def)

section \<open>Properties of the Client Session Manager\<close>

text \<open>
  Claim C7. An authenticated request (the session holds a token) that receives a
  response: when the status is 401 the session becomes anonymous, the entry under the
  key \<open>auth\<close> is removed from the local storage and the call throws; with any other
  status the session and the storage stay as they were and the response is returned.
\<close>

theorem C7_session_cleared_on_401_only:
  "auth st = Some a \<and> auth_token a \<noteq> [] \<and> fetch url (authRequest a options) = Inr response \<Longrightarrow>
   (status response = 401 \<longrightarrow>
      auth (fst (authFetchRendered stringify fetch url options st)) = None \<and>
      localStorage (fst (authFetchRendered stringify fetch url options st)) ''auth'' = None \<and>
      snd (authFetchRendered stringify fetch url options st)
        = Inl (Error ''Unauthorized. Please log in again.'')) \<and>
   (status response \<noteq> 401 \<longrightarrow>
      authFetchRendered stringify fetch url options st = (st, Inr response)) \<and>
   (auth (fst (authFetchRendered stringify fetch url options st)) = None
      \<longleftrightarrow> status response = 401)"
  by (auto simp: authFetchRendered_def authFetch_def authRequest_def authEffect_def setAuth_def
        Let_def)

theorem C7_session_cleared_on_401_only_witness:
  "auth (fst (authFetchRendered sampleStringify sampleFetch ''/api/moods'' getOptions
          (sampleClient ''old.token''))) = None \<and>
   localStorage (fst (authFetchRendered sampleStringify sampleFetch ''/api/moods'' getOptions
          (sampleClient ''old.token''))) ''auth'' = None \<and>
   authFetchRendered sampleStringify sampleFetch ''/api/moods'' getOptions
     (sampleClient ''no.rights'')
   = (sampleClient ''no.rights'', Inr \<lparr>status = 403, ok = False\<rparr>)"
proof -
  let ?old = "\<lparr>auth_token = ''old.token'', auth_username = ''ann''\<rparr>"
  let ?nor = "\<lparr>auth_token = ''no.rights'', auth_username = ''ann''\<rparr>"
  have h1: "auth (sampleClient ''old.token'') = Some ?old \<and> auth_token ?old \<noteq> [] \<and>
            sampleFetch ''/api/moods'' (authRequest ?old getOptions)
              = Inr \<lparr>status = 401, ok = False\<rparr>"
    by (simp add: sampleClient_def sampleFetch_def authRequest_def getOptions_def)
  have h2: "auth (sampleClient ''no.rights'') = Some ?nor \<and> auth_token ?nor \<noteq> [] \<and>
            sampleFetch ''/api/moods'' (authRequest ?nor getOptions)
              = Inr \<lparr>status = 403, ok = False\<rparr>"
    by (simp add: sampleClient_def sampleFetch_def authRequest_def getOptions_def)
  from C7_session_cleared_on_401_only [where fetch = sampleFetch and stringify = sampleStringify
      and st = "sampleClient ''old.token''" and a = ?old and url = "''/api/moods''"
      and options = getOptions and response = "\<lparr>status = 401, ok = False\<rparr>"] h1
  have a: "auth (fst (authFetchRendered sampleStringify sampleFetch ''/api/moods'' getOptions
          (sampleClient ''old.token''))) = None \<and>
     localStorage (fst (authFetchRendered sampleStringify sampleFetch ''/api/moods'' getOptions
          (sampleClient ''old.token''))) ''auth'' = None" by simp
  from C7_session_cleared_on_401_only [where fetch = sampleFetch and stringify = sampleStringify
      and st = "sampleClient ''no.rights''" and a = ?nor and url = "''/api/moods''"
      and options = getOptions and response = "\<lparr>status = 403, ok = False\<rparr>"] h2
  have b: "authFetchRendered sampleStringify sampleFetch ''/api/moods'' getOptions
     (sampleClient ''no.rights'')
   = (sampleClient ''no.rights'', Inr \<lparr>status = 403, ok = False\<rparr>)" by simp
  from a b show ?thesis by blast
qed

section \<open>Properties of the Mood Entry Service\<close>

lemma validateMoodField_iff: "validateMoodField v = [] \<longleftrightarrow> v \<in> Some ` set moodEnum"
  by (auto simp: validateMoodField_def moodEnum_def split: option.splits)

lemma buildEntry_mood_invalid:
  "in_mood inp \<notin> Some ` set moodEnum \<Longrightarrow> isl (buildEntry trim now inp)"
proof -
  assume "in_mood inp \<notin> Some ` set moodEnum"
  then have ne: "validateMoodField (in_mood inp) \<noteq> []" by (simp add: validateMoodField_iff)
  show ?thesis
  proof (cases "in_mood inp")
    case None
    then show ?thesis by (simp add: buildEntry_def Let_def split: user_input.splits)
  next
    case (Some x)
    with ne show ?thesis by (simp add: buildEntry_def Let_def split: user_input.splits)
  qed
qed

lemma validateDateField_iff:
  "validateDateField v = [] \<longleftrightarrow> v \<noteq> DateInvalid \<and> v \<noteq> DateNull"
  by (cases v) (simp_all add: validateDateField_def)

text \<open>
  Claim C8. The mood field validates exactly when its value is one of the five
  enumerated moods. With any other value (absent, empty, or a string outside the list)
  no document is built, and \<open>createEntry\<close> answers 400 with the validation errors and
  leaves the store as it was; with a mood of the list and a date that is neither
  invalid nor \<open>null\<close> the entry is persisted and the answer is 201.
\<close>

theorem C8_mood_enum_validation:
  "(moodValue \<notin> Some ` set moodEnum \<longrightarrow>
      fst (fst (createEntry trim now userId moodValue journalText dateValue store)) = 400 \<and>
      isl (snd (fst (createEntry trim now userId moodValue journalText dateValue store))) \<and>
      snd (createEntry trim now userId moodValue journalText dateValue store) = store) \<and>
   (validateMoodField moodValue = [] \<longleftrightarrow> moodValue \<in> Some ` set moodEnum) \<and>
   (in_mood inp \<notin> Some ` set moodEnum \<longrightarrow> isl (buildEntry trim now inp)) \<and>
   (m \<in> set moodEnum \<and> dateValue \<noteq> DateInvalid \<and> dateValue \<noteq> DateNull \<longrightarrow>
      fst (fst (createEntry trim now userId (Some m) journalText dateValue store)) = 201 \<and>
      length (snd (createEntry trim now userId (Some m) journalText dateValue store))
        = Suc (length store))"
proof -
  have a: "isl (buildEntry trim now \<lparr>in_user = UserId userId, in_mood = moodValue,
             in_journal = journalText, in_date = dateValue\<rparr>)"
    if "moodValue \<notin> Some ` set moodEnum"
    by (rule buildEntry_mood_invalid) (use that in simp)
  have b: "\<not> isl (buildEntry trim now \<lparr>in_user = UserId userId, in_mood = Some m,
             in_journal = journalText, in_date = dateValue\<rparr>)"
    if "m \<in> set moodEnum" and "dateValue \<noteq> DateInvalid \<and> dateValue \<noteq> DateNull"
    using that validateMoodField_iff [of "Some m"] validateDateField_iff [of dateValue]
    by (simp add: buildEntry_def validateUserField_def Let_def)
  have c1: "fst (fst (createEntry trim now userId moodValue journalText dateValue store)) = 400 \<and>
      isl (snd (fst (createEntry trim now userId moodValue journalText dateValue store))) \<and>
      snd (createEntry trim now userId moodValue journalText dateValue store) = store"
    if h: "moodValue \<notin> Some ` set moodEnum"
    using a [OF h]
    by (cases "buildEntry trim now \<lparr>in_user = UserId userId, in_mood = moodValue,
             in_journal = journalText, in_date = dateValue\<rparr>")
       (simp_all add: createEntry_def)
  have c3: "fst (fst (createEntry trim now userId (Some m) journalText dateValue store)) = 201 \<and>
      length (snd (createEntry trim now userId (Some m) journalText dateValue store))
        = Suc (length store)"
    if h1: "m \<in> set moodEnum" and h2: "dateValue \<noteq> DateInvalid \<and> dateValue \<noteq> DateNull"
    using b [OF h1 h2]
    by (cases "buildEntry trim now \<lparr>in_user = UserId userId, in_mood = Some m,
             in_journal = journalText, in_date = dateValue\<rparr>")
       (simp_all add: createEntry_def)
  from c1 c3 validateMoodField_iff [of moodValue] buildEntry_mood_invalid [of inp trim now]
  show ?thesis by blast
qed

theorem C8_mood_enum_validation_witness:
  "createEntry asciiTrim 1762166400000 sampleUserId (Some ''furious'') (JournalText ''bad day'')
     NoDate []
   = ((400, Inl [ValidatorError ''mood'' ''enum'']), []) \<and>
   fst (fst (createEntry asciiTrim 1762166400000 sampleUserId (Some ''sad'')
     (JournalText ''bad day'') NoDate [])) = 201"
proof -
  have h1: "Some ''furious'' \<notin> Some ` set moodEnum" by (simp add: moodEnum_def)
  have h2: "''sad'' \<in> set moodEnum \<and> NoDate \<noteq> DateInvalid \<and> NoDate \<noteq> DateNull"
    by (simp add: moodEnum_def)
  have v: "createEntry asciiTrim 1762166400000 sampleUserId (Some ''furious'')
             (JournalText ''bad day'') NoDate []
           = ((400, Inl [ValidatorError ''mood'' ''enum'']), [])"
    by (simp add: createEntry_def buildEntry_def validateUserField_def validateMoodField_def
          validateDateField_def moodEnum_def Let_def)
  from C8_mood_enum_validation [where moodValue = "Some ''furious''" and now = 1762166400000
      and userId = sampleUserId and journalText = "JournalText ''bad day''" and dateValue = NoDate
      and store = "[]" and m = "''sad''" and trim = asciiTrim] h1 h2
  have "fst (fst (createEntry asciiTrim 1762166400000 sampleUserId (Some ''sad'')
     (JournalText ''bad day'') NoDate [])) = 201"
    by blast
  with v show ?thesis by blast
qed

end
